theory Spec2Isabelle
  imports Complex_Main "HOL-Library.Word"
begin

unbundle bit_operations_syntax

section \<open>pulse\_beep: the tone scheduler\<close>

text \<open>
  The C type \<open>int\<close> is a 32-bit two's complement integer: a \<open>32 word\<close>, compared
  with the signed orders \<open><s\<close> and \<open>\<le>s\<close>. Where a product or a difference does
  not fit in 32 bits the result here is the one that wraps around, which is what
  the usual compilers produce for the overflow that C leaves undefined.
  \<open>INT_MAX\<close> is the macro of \<open>limits.h\<close>.
\<close>

type_synonym c_int = "32 word"

definition INT_MAX :: c_int where
  "INT_MAX = 2147483647"

text \<open>
  \<open>struct beep\<close>. The field \<open>next\<close> of the source is named \<open>nxt\<close> here.
\<close>

record beep_t =
  freq :: c_int
  att :: c_int
  len :: c_int
  intv :: c_int
  nxt :: c_int

text \<open>
  Modelled from the spec: \<open>tone_t\<close> is declared in a header that is not among the
  sources; a tone has a frequency in Hz (0 for silence), a level in dB and a
  duration in microseconds. The scheduler stores \<open>int\<close> values in the three
  fields \<open>hz\<close>, \<open>db\<close> and \<open>us\<close>; a 32-bit word holds them whether the field is
  signed or unsigned.
\<close>

record tone_t =
  hz :: c_int
  db :: c_int
  us :: c_int

datatype fault = Null_deref

text \<open>Division of C: the quotient is truncated towards zero.\<close>

definition c_div :: "int \<Rightarrow> int \<Rightarrow> int" where
  "c_div a b = sgn a * sgn b * (\<bar>a\<bar> div \<bar>b\<bar>)"

text \<open>
  \<open>(int)((long long)p->intv * rand() / RAND_MAX) + 1\<close>: the product and the quotient
  are formed in 64 bits, where they cannot overflow; the cast and the increment are
  in 32 bits. \<open>rand_max\<close> is the macro \<open>RAND_MAX\<close> of the C library and \<open>r\<close> the
  value that \<open>rand()\<close> returned.
\<close>

definition rand_next :: "int \<Rightarrow> c_int \<Rightarrow> int \<Rightarrow> c_int" where
  "rand_next rand_max iv r = word_of_int (c_div (sint iv * r) rand_max) + 1"

text \<open>
  The loop that draws the first countdown of every source, in list order. \<open>rnd k\<close>
  is the result of the \<open>k\<close>-th call of \<open>rand()\<close> after \<open>srand(rand_seed)\<close>.
\<close>

fun init_next :: "int \<Rightarrow> (nat \<Rightarrow> int) \<Rightarrow> nat \<Rightarrow> beep_t list \<Rightarrow> beep_t list" where
  "init_next rand_max rnd i [] = []"
| "init_next rand_max rnd i (p # ps) =
     p\<lparr>nxt := rand_next rand_max (intv p) (rnd i)\<rparr> # init_next rand_max rnd (Suc i) ps"

text \<open>
  The search for the next beep. The pair is \<open>(gap, beep)\<close>; the pointer \<open>beep\<close> is
  the index of the source it points to, \<open>None\<close> for \<open>NULL\<close>.
\<close>

fun find_next :: "beep_t list \<Rightarrow> nat \<Rightarrow> c_int \<times> nat option \<Rightarrow> c_int \<times> nat option" where
  "find_next [] i (gap, beep) = (gap, beep)"
| "find_next (p # ps) i (gap, beep) =
     find_next ps (Suc i) (if nxt p <s gap then (nxt p, Some i) else (gap, beep))"

definition select_beep :: "beep_t list \<Rightarrow> c_int \<times> nat option" where
  "select_beep beeps = find_next beeps 0 (INT_MAX, None)"

text \<open>The loop that advances every countdown by \<open>gap\<close>.\<close>

definition advance :: "c_int \<Rightarrow> beep_t list \<Rightarrow> beep_t list" where
  "advance gap beeps =
     map (\<lambda>p. if nxt p \<le>s gap then p\<lparr>nxt := intv p\<rparr> else p\<lparr>nxt := nxt p - gap\<rparr>) beeps"

definition silence :: "c_int \<Rightarrow> tone_t" where
  "silence gap = \<lparr>hz = 0, db = - 99, us = gap * 1000\<rparr>"

definition beep_tone :: "beep_t \<Rightarrow> tone_t" where
  "beep_tone p = \<lparr>hz = freq p, db = att p, us = len p * 1000\<rparr>"

definition start_silence :: tone_t where
  "start_silence = \<lparr>hz = 0, db = - 99, us = 500 * 1000\<rparr>"

text \<open>
  One pass through the body of the main loop: the search, the silence of \<open>gap\<close>
  milliseconds, the beep of the selected source, the advance. The tone array is the
  list of the tones written so far, \<open>tones_idx\<close> its length. The source reads
  \<open>beep->freq\<close> without a test of \<open>beep\<close>: reading through the \<open>NULL\<close> pointer is
  the fault \<open>Null_deref\<close>, and the run produces nothing.
\<close>

definition sched_step :: "beep_t list \<times> tone_t list \<Rightarrow> fault + beep_t list \<times> tone_t list" where
  "sched_step s =
     (case s of (beeps, tones) \<Rightarrow>
        (case select_beep beeps of
           (gap, None) \<Rightarrow> Inl Null_deref
         | (gap, Some i) \<Rightarrow>
             Inr (advance gap beeps, tones @ [silence gap, beep_tone (beeps ! i)])))"

text \<open>
  \<open>while (tones_idx < 30 - 2)\<close>: every pass appends two tones, so the loop ends.
\<close>

function sched_loop :: "beep_t list \<times> tone_t list \<Rightarrow> fault + beep_t list \<times> tone_t list" where
  "sched_loop (beeps, tones) =
     (if length tones < 30 - 2
      then (case sched_step (beeps, tones) of
              Inl e \<Rightarrow> Inl e
            | Inr s' \<Rightarrow> sched_loop s')
      else Inr (beeps, tones))"
  by pat_completeness auto
termination
  by (relation "measure (\<lambda>(beeps, tones). 28 - length tones)")
     (auto simp: sched_step_def split: prod.splits option.splits)

declare sched_loop.simps [simp del]

text \<open>The scheduler as a whole: the start silence, the first countdowns, the main loop.\<close>

definition gen_beeps :: "int \<Rightarrow> (nat \<Rightarrow> int) \<Rightarrow> beep_t list \<Rightarrow> fault + tone_t list" where
  "gen_beeps rand_max rnd beeps =
     (case sched_loop (init_next rand_max rnd 0 beeps, [start_silence]) of
        Inl e \<Rightarrow> Inl e
      | Inr (beeps', tones) \<Rightarrow> Inr tones)"

text \<open>
  A stub of the C library for concrete runs: \<open>rand()\<close> returns \<open>r\<close> at every call.
\<close>

definition const_rand :: "int \<Rightarrow> nat \<Rightarrow> int" where
  "const_rand r k = r"




section \<open>sdr\_mix: the stream mixer\<close>

text \<open>
  A sample is one byte. \<open>uint8_t\<close> and \<open>int8_t\<close> are both 8-bit words; \<open>uint\<close>
  reads a word as unsigned and \<open>sint\<close> as two's complement, and a narrowing cast
  is \<open>word_of_int\<close>, which keeps the low eight bits.
\<close>

type_synonym u8 = "8 word"

text \<open>
  The result of one \<open>read\<close>: a negative return value, or the bytes that were
  placed in the buffer (their number is the return value).
\<close>

datatype rd = Rd_err | Rd_ok "u8 list"

text \<open>
  What the output accepts at one \<open>write\<close>: an error, or at most so many bytes.
\<close>

datatype wr = Wr_err | Wr_ok nat

text \<open>
  \<open>struct input\<close>. The descriptor \<open>fd\<close> is what it will deliver: the results of
  the reads still to come, in order; when the list is used up every further read
  returns 0 bytes (end of stream).
\<close>

record input_t =
  fd :: "rd list"
  path :: string
  gain :: real

text \<open>
  The output descriptor \<open>w_fd\<close>: what the coming writes will accept (every write
  is accepted whole once the list is used up) and the bytes written so far.
\<close>

record output_t =
  pending :: "wr list"
  written :: "u8 list"

text \<open>
  The lines printed to the error stream inside the loop.
\<close>

datatype msg = Failed_read string | Failed_write | Done

text \<open>
  The variables of \<open>main\<close> that the loop uses. \<open>input0\<close> is \<open>inputs[0]\<close>, which
  the program requires to exist, and \<open>inputs_rest\<close> is \<open>inputs[1..inputs_idx]\<close>.
\<close>

record mixer =
  frame_size :: nat
  input0 :: input_t
  inputs_rest :: "input_t list"
  w_fd :: output_t
  log :: "msg list"

text \<open>
  \<open>read(fd, blk_cu8, frame_size)\<close>: never more than \<open>frame_size\<close> bytes.
\<close>

fun read_fd :: "nat \<Rightarrow> rd list \<Rightarrow> rd \<times> rd list" where
  "read_fd n [] = (Rd_ok [], [])"
| "read_fd n (Rd_err # rs) = (Rd_err, rs)"
| "read_fd n (Rd_ok d # rs) = (Rd_ok (take n d), rs)"

text \<open>
  \<open>write(w_fd, blk_cu8, write_size)\<close>, with the value it returns.
\<close>

fun write_fd :: "output_t \<Rightarrow> u8 list \<Rightarrow> int \<times> output_t" where
  "write_fd out buf =
     (case pending out of
        [] \<Rightarrow> (int (length buf), out\<lparr>written := written out @ buf\<rparr>)
      | Wr_err # ws \<Rightarrow> (- 1, out\<lparr>pending := ws\<rparr>)
      | Wr_ok k # ws \<Rightarrow>
          (int (min k (length buf)),
           out\<lparr>pending := ws, written := written out @ take k buf\<rparr>))"

text \<open>
  Conversion of a floating-point value to an integer type discards the fraction.
\<close>

definition c_trunc :: "real \<Rightarrow> int" where
  "c_trunc x = (if 0 \<le> x then \<lfloor>x\<rfloor> else \<lceil>x\<rceil>)"

text \<open>
  \<open>(int8_t)(blk_cu8[k] - 128)\<close>: the subtraction is in \<open>int\<close>.
\<close>

definition cu8_to_cs8 :: "u8 \<Rightarrow> u8" where
  "cu8_to_cs8 x = word_of_int (uint x - 128)"

text \<open>
  Rounding to the nearest integer, a tie going to the even one.
\<close>

definition round_even :: "real \<Rightarrow> int" where
  "round_even r =
     (let f = \<lfloor>r\<rfloor>
      in if r - of_int f < 1 / 2 then f
         else if 1 / 2 < r - of_int f then f + 1
         else if even f then f else f + 1)"

text \<open>
  The value of a product in double precision: the real product rounded to 53
  significant bits, to nearest with ties to even. Overflow and subnormal results
  are left out: they do not change what the conversion below gives.
\<close>

definition to_double :: "real \<Rightarrow> real" where
  "to_double x =
     (if x = 0 then 0
      else (let u = 2 powr of_int (\<lfloor>Transcendental.log 2 \<bar>x\<bar>\<rfloor> - 52)
            in of_int (round_even (x / u)) * u))"

text \<open>
  \<open>(int8_t)d\<close> for a double \<open>d\<close>. The fraction is discarded and the low eight
  bits are kept. C leaves the conversion undefined when the integer is not an
  \<open>int8_t\<close>; this is what the compiled conversion through a 32-bit integer gives,
  and 0 where the integer does not fit in 32 bits either (x86-64).
\<close>

definition double_to_int8 :: "real \<Rightarrow> u8" where
  "double_to_int8 d =
     (if - 2147483648 \<le> c_trunc d \<and> c_trunc d \<le> 2147483647
      then word_of_int (c_trunc d) else 0)"

text \<open>
  \<open>(int8_t)((blk_cu8[k] - 128) * gain)\<close>: the difference is an \<open>int\<close>, the
  product is formed in double precision (the gain \<open>g\<close> is the value of a double).
\<close>

definition attenuate :: "real \<Rightarrow> u8 \<Rightarrow> u8" where
  "attenuate g x = double_to_int8 (to_double (real_of_int (uint x - 128) * g))"

text \<open>
  \<open>(uint8_t)(blk_cs8[k] + 128)\<close>.
\<close>

definition cs8_to_cu8 :: "u8 \<Rightarrow> u8" where
  "cs8_to_cu8 a = word_of_int (sint a + 128)"

text \<open>
  \<open>blk_cs8[k] += v\<close>: the sum is formed in \<open>int\<close> and stored back in 8 bits.
\<close>

definition add_cs8 :: "u8 \<Rightarrow> u8 \<Rightarrow> u8" where
  "add_cs8 a v = word_of_int (sint a + sint v)"

text \<open>
  The loop that adds the \<open>rn\<close> bytes just read, attenuated, to the accumulator.
\<close>

definition mix_block :: "real \<Rightarrow> u8 list \<Rightarrow> u8 list \<Rightarrow> u8 list" where
  "mix_block g d blk_cs8 =
     map2 (\<lambda>a x. add_cs8 a (attenuate g x)) (take (length d) blk_cs8) d
       @ drop (length d) blk_cs8"

text \<open>
  The loop over \<open>inputs[1..inputs_idx]\<close>. It carries the accumulator \<open>blk_cs8\<close>,
  \<open>write_size\<close> and the error stream. A failed read leaves this loop by \<open>break\<close>:
  the inputs after it are not read in this pass.
\<close>

fun mix_inputs ::
  "nat \<Rightarrow> input_t list \<Rightarrow> u8 list \<times> nat \<times> msg list \<Rightarrow>
     input_t list \<times> u8 list \<times> nat \<times> msg list" where
  "mix_inputs n [] (blk_cs8, write_size, lg) = ([], blk_cs8, write_size, lg)"
| "mix_inputs n (c # cs) (blk_cs8, write_size, lg) =
     (case read_fd n (fd c) of
        (Rd_err, fd') \<Rightarrow>
          (c\<lparr>fd := fd'\<rparr> # cs, blk_cs8, write_size, lg @ [Failed_read (path c)])
      | (Rd_ok d, fd') \<Rightarrow>
          (case mix_inputs n cs
                  (mix_block (gain c) d blk_cs8, max write_size (length d), lg) of
             (cs', r) \<Rightarrow> (c\<lparr>fd := fd'\<rparr> # cs', r)))"

text \<open>
  One pass through the body of \<open>while (1)\<close>. The Boolean tells whether the loop
  goes on (\<open>True\<close>) or was left by \<open>break\<close> (\<open>False\<close>).
\<close>

definition mix_iter :: "mixer \<Rightarrow> bool \<times> mixer" where
  "mix_iter st =
     (case read_fd (frame_size st) (fd (input0 st)) of
        (Rd_err, fd') \<Rightarrow>
          (False, st\<lparr>input0 := (input0 st)\<lparr>fd := fd'\<rparr>,
                     log := log st @ [Failed_read (path (input0 st))]\<rparr>)
      | (Rd_ok d, fd') \<Rightarrow>
          (let r1 = length d;
               blk_cs8 =
                 (if gain (input0 st) = 1 then map cu8_to_cs8 d
                  else map (attenuate (gain (input0 st))) d)
                 @ replicate (frame_size st - r1) 0
           in case mix_inputs (frame_size st) (inputs_rest st) (blk_cs8, r1, log st) of
                (rest', blk_cs8', write_size, lg) \<Rightarrow>
                  (case write_fd (w_fd st) (map cs8_to_cu8 (take write_size blk_cs8')) of
                     (w, out') \<Rightarrow>
                       (let st' = st\<lparr>input0 := (input0 st)\<lparr>fd := fd'\<rparr>,
                                      inputs_rest := rest', w_fd := out'\<rparr>
                        in if w \<noteq> int write_size
                           then (False, st'\<lparr>log := lg @ [Failed_write]\<rparr>)
                           else if write_size \<noteq> frame_size st
                           then (False, st'\<lparr>log := lg @ [Done]\<rparr>)
                           else (True, st'\<lparr>log := lg\<rparr>)))))"

text \<open>
  The loop, with a bound on the number of passes: \<open>None\<close> when the loop has not
  been left after that many passes.
\<close>

fun mix_loop :: "nat \<Rightarrow> mixer \<Rightarrow> mixer option" where
  "mix_loop 0 st = None"
| "mix_loop (Suc n) st =
     (case mix_iter st of
        (True, st') \<Rightarrow> mix_loop n st'
      | (False, st') \<Rightarrow> Some st')"

text \<open>
  The coming write of \<open>n\<close> bytes is accepted whole.
\<close>

definition write_complete :: "output_t \<Rightarrow> nat \<Rightarrow> bool" where
  "write_complete out n \<longleftrightarrow>
     (case pending out of [] \<Rightarrow> True | Wr_err # ws \<Rightarrow> False | Wr_ok k # ws \<Rightarrow> n \<le> k)"

section \<open>The tone scheduler: proofs\<close>

subsection \<open>The search for the next beep\<close>

lemma sless_INT_MAX: "x <s INT_MAX \<longleftrightarrow> x \<noteq> INT_MAX"
proof -
  have "sint x < 2 ^ (LENGTH(32) - 1)" by (rule sint_lt)
  then have a: "sint x \<le> 2147483647" by simp
  have b: "sint INT_MAX = 2147483647" by (simp add: INT_MAX_def)
  have "x = INT_MAX \<longleftrightarrow> sint x = sint INT_MAX" by (auto intro: signed_word_eqI) 
  with a b show ?thesis by (auto simp: word_sless_alt)
qed

lemma find_next_none_less:
  "\<forall>p\<in>set ps. \<not> nxt p <s gap \<Longrightarrow> find_next ps i (gap, beep) = (gap, beep)"
  by (induction ps arbitrary: i) auto

lemma find_next_lower:
  "find_next ps i (gap, beep) = (g, b) \<Longrightarrow> g \<le>s gap \<and> (\<forall>p\<in>set ps. g \<le>s nxt p)"
proof (induction ps arbitrary: i gap beep)
  case Nil
  then show ?case by (simp add: word_sle_eq)
next
  case (Cons p ps)
  show ?case
  proof (cases "nxt p <s gap")
    case True
    with Cons.prems have "find_next ps (Suc i) (nxt p, Some i) = (g, b)" by simp
    from Cons.IH [OF this] True show ?thesis
      by (auto simp: word_sless_alt word_sle_eq)
  next
    case False
    with Cons.prems have "find_next ps (Suc i) (gap, beep) = (g, b)" by simp
    from Cons.IH [OF this] False show ?thesis
      by (auto simp: word_sless_alt word_sle_eq)
  qed
qed

lemma find_next_first:
  "find_next ps i (gap, beep) = (g, b) \<Longrightarrow> \<exists>p\<in>set ps. nxt p <s gap \<Longrightarrow>
     \<exists>k<length ps. b = Some (i + k) \<and> nxt (ps ! k) = g \<and> (\<forall>j<k. g <s nxt (ps ! j))"
proof (induction ps arbitrary: i gap beep)
  case Nil
  then show ?case by simp
next
  case (Cons p ps)
  show ?case
  proof (cases "nxt p <s gap")
    case True
    with Cons.prems have rec: "find_next ps (Suc i) (nxt p, Some i) = (g, b)" by simp
    show ?thesis
    proof (cases "\<exists>q\<in>set ps. nxt q <s nxt p")
      case True
      from Cons.IH [OF rec True] obtain k where k: "k < length ps" "b = Some (Suc i + k)"
        "nxt (ps ! k) = g" "\<forall>j<k. g <s nxt (ps ! j)" by blast
      from find_next_lower [OF rec] True have "g <s nxt p"
        by (auto simp: word_sless_alt word_sle_eq)
      with k have "\<forall>j<Suc k. g <s nxt ((p # ps) ! j)"
        by (auto simp: less_Suc_eq_0_disj)
      with k show ?thesis by (intro exI [of _ "Suc k"]) simp
    next
      case False
      then have "find_next ps (Suc i) (nxt p, Some i) = (nxt p, Some i)"
        by (intro find_next_none_less) blast
      with rec show ?thesis by (intro exI [of _ 0]) simp
    qed
  next
    case False
    with Cons.prems have rec: "find_next ps (Suc i) (gap, beep) = (g, b)" by simp
    from False Cons.prems(2) have ex: "\<exists>q\<in>set ps. nxt q <s gap" by auto
    from Cons.IH [OF rec ex] obtain k where k: "k < length ps" "b = Some (Suc i + k)"
      "nxt (ps ! k) = g" "\<forall>j<k. g <s nxt (ps ! j)" by blast
    from find_next_lower [OF rec] ex False have "g <s nxt p"
      by (auto simp: word_sless_alt word_sle_eq)
    with k have "\<forall>j<Suc k. g <s nxt ((p # ps) ! j)"
      by (auto simp: less_Suc_eq_0_disj)
    with k show ?thesis by (intro exI [of _ "Suc k"]) simp
  qed
qed

lemma select_beep_some:
  assumes "\<exists>p\<in>set beeps. nxt p \<noteq> INT_MAX"
  shows "\<exists>i<length beeps. select_beep beeps = (nxt (beeps ! i), Some i) \<and>
           (\<forall>j<length beeps. nxt (beeps ! i) \<le>s nxt (beeps ! j)) \<and>
           (\<forall>j<i. nxt (beeps ! i) <s nxt (beeps ! j))"
proof -
  obtain g b where gb: "find_next beeps 0 (INT_MAX, None) = (g, b)" by force
  from assms have ex: "\<exists>p\<in>set beeps. nxt p <s INT_MAX" by (simp add: sless_INT_MAX)
  from find_next_first [OF gb ex] obtain k where k: "k < length beeps" "b = Some k"
    "nxt (beeps ! k) = g" "\<forall>j<k. g <s nxt (beeps ! j)" by auto
  from find_next_lower [OF gb] have "\<forall>j<length beeps. g \<le>s nxt (beeps ! j)" by simp
  with k gb show ?thesis by (auto simp: select_beep_def)
qed

lemma select_beep_none:
  assumes "\<forall>p\<in>set beeps. nxt p = INT_MAX"
  shows "select_beep beeps = (INT_MAX, None)"
  unfolding select_beep_def using assms
  by (intro find_next_none_less) (simp add: sless_INT_MAX)

subsection \<open>One pass and the whole loop\<close>


lemma select_beep_SomeD:
  assumes "select_beep beeps = (g, Some i)"
  shows "i < length beeps \<and> nxt (beeps ! i) = g \<and>
         (\<forall>j<length beeps. g \<le>s nxt (beeps ! j)) \<and> (\<forall>j<i. g <s nxt (beeps ! j))"
proof (cases "\<exists>p\<in>set beeps. nxt p \<noteq> INT_MAX")
  case True
  from select_beep_some [OF True] assms show ?thesis by auto
next
  case False
  then have "select_beep beeps = (INT_MAX, None)" by (intro select_beep_none) simp
  with assms show ?thesis by simp
qed

lemma length_advance: "length (advance gap beeps) = length beeps"
  by (simp add: advance_def)

lemma nth_advance:
  "j < length beeps \<Longrightarrow> advance gap beeps ! j =
     (if nxt (beeps ! j) \<le>s gap then (beeps ! j)\<lparr>nxt := intv (beeps ! j)\<rparr>
      else (beeps ! j)\<lparr>nxt := nxt (beeps ! j) - gap\<rparr>)"
  by (simp add: advance_def)

lemma intv_advance: "map intv (advance gap beeps) = map intv beeps"
  by (simp add: advance_def)





lemma sched_step_InrD:
  assumes "sched_step (beeps, tones) = Inr (beeps', tones')"
  shows "\<exists>i<length beeps. select_beep beeps = (nxt (beeps ! i), Some i) \<and>
           beeps' = advance (nxt (beeps ! i)) beeps \<and>
           tones' = tones @ [silence (nxt (beeps ! i)), beep_tone (beeps ! i)]"
proof -
  obtain g b where gb: "select_beep beeps = (g, b)" by force
  with assms obtain i where i: "b = Some i"
    by (cases b) (auto simp: sched_step_def)
  from select_beep_SomeD [OF gb [unfolded i]] have "i < length beeps" "nxt (beeps ! i) = g"
    by auto
  with assms gb i show ?thesis by (auto simp: sched_step_def)
qed

lemma sched_step_defined:
  assumes "\<exists>p\<in>set beeps. nxt p \<noteq> INT_MAX"
  shows "\<exists>i<length beeps. sched_step (beeps, tones) =
           Inr (advance (nxt (beeps ! i)) beeps,
                tones @ [silence (nxt (beeps ! i)), beep_tone (beeps ! i)])"
proof -
  from select_beep_some [OF assms] obtain i where "i < length beeps"
    "select_beep beeps = (nxt (beeps ! i), Some i)" by blast
  then show ?thesis by (auto simp: sched_step_def)
qed

lemma sched_step_fault:
  assumes "\<forall>p\<in>set beeps. nxt p = INT_MAX"
  shows "sched_step (beeps, tones) = Inl Null_deref"
  using select_beep_none [OF assms] by (simp add: sched_step_def)





subsection \<open>Selection and advance\<close>

lemmas sched_eval = gen_beeps_def sched_loop.simps sched_step_def select_beep_def INT_MAX_def
  advance_def silence_def beep_tone_def start_silence_def rand_next_def c_div_def const_rand_def

lemma sint_sub_no_wrap:
  fixes a g :: c_int
  assumes "g <s a" "0 \<le>s g"
  shows "sint (a - g) = sint a - sint g"
proof -
  have a: "sint a < 2 ^ (LENGTH(32) - 1)" by (rule sint_lt)
  have g: "- (2 ^ (LENGTH(32) - 1)) \<le> sint g" by (rule sint_ge)
  from assms have "sint g < sint a" "0 \<le> sint g"
    by (simp_all add: word_sless_alt word_sle_eq)
  with a g have "- (2 ^ 31) \<le> sint a - sint g" "sint a - sint g < 2 ^ 31" by simp_all
  then have "signed_take_bit 31 (sint a - sint g) = sint a - sint g"
    by (simp add: signed_take_bit_int_eq_self)
  then show ?thesis by (simp add: sint_word_ariths)
qed

text \<open>
  The search as long as it finds a source: whenever some countdown is not
  \<open>INT_MAX\<close>, the pass uses the source whose countdown is the least of all
  sources, and of several sources with that countdown the one that comes first
  in the list; the silence lasts that countdown and the beep is that source's.
\<close>

lemma select_beep_first_minimum:
  assumes "\<exists>p\<in>set beeps. nxt p \<noteq> INT_MAX"
  shows "\<exists>i<length beeps.
           (\<forall>j<length beeps. nxt (beeps ! i) \<le>s nxt (beeps ! j)) \<and>
           (\<forall>j<i. nxt (beeps ! i) <s nxt (beeps ! j)) \<and>
           select_beep beeps = (nxt (beeps ! i), Some i) \<and>
           sched_step (beeps, tones) =
             Inr (advance (nxt (beeps ! i)) beeps,
                  tones @ [silence (nxt (beeps ! i)), beep_tone (beeps ! i)])"
proof -
  from select_beep_some [OF assms] obtain i where i: "i < length beeps"
    "select_beep beeps = (nxt (beeps ! i), Some i)"
    "\<forall>j<length beeps. nxt (beeps ! i) \<le>s nxt (beeps ! j)"
    "\<forall>j<i. nxt (beeps ! i) <s nxt (beeps ! j)" by blast
  from i(2) have "sched_step (beeps, tones) =
      Inr (advance (nxt (beeps ! i)) beeps,
           tones @ [silence (nxt (beeps ! i)), beep_tone (beeps ! i)])"
    by (simp add: sched_step_def)
  with i show ?thesis by blast
qed

text \<open>
  Claim C2. After the pair has been appended, every source, selected or not, whose
  countdown is at most the gap has its countdown set to its own interval, and
  every other source has the gap subtracted from its countdown; the gap is the
  countdown of the selected source and nothing else in a source changes. The
  subtraction is that of 32-bit integers; it is the subtraction of the integers
  whenever the gap is not negative.
\<close>

theorem advance_every_source:
  assumes "sched_step (beeps, tones) = Inr (beeps', tones')"
  shows "\<exists>i<length beeps. select_beep beeps = (nxt (beeps ! i), Some i) \<and>
           length beeps' = length beeps \<and>
           (\<forall>j<length beeps.
              freq (beeps' ! j) = freq (beeps ! j) \<and> att (beeps' ! j) = att (beeps ! j) \<and>
              len (beeps' ! j) = len (beeps ! j) \<and> intv (beeps' ! j) = intv (beeps ! j) \<and>
              (if nxt (beeps ! j) \<le>s nxt (beeps ! i)
               then nxt (beeps' ! j) = intv (beeps ! j)
               else nxt (beeps' ! j) = nxt (beeps ! j) - nxt (beeps ! i) \<and>
                    (0 \<le>s nxt (beeps ! i) \<longrightarrow>
                       sint (nxt (beeps' ! j)) = sint (nxt (beeps ! j)) - sint (nxt (beeps ! i)))))"
proof -
  from sched_step_InrD [OF assms] obtain i where i: "i < length beeps"
    "select_beep beeps = (nxt (beeps ! i), Some i)"
    "beeps' = advance (nxt (beeps ! i)) beeps" by blast
  have len: "length beeps' = length beeps" by (simp add: i(3) length_advance)
  have body: "\<forall>j<length beeps.
          freq (beeps' ! j) = freq (beeps ! j) \<and> att (beeps' ! j) = att (beeps ! j) \<and>
          len (beeps' ! j) = len (beeps ! j) \<and> intv (beeps' ! j) = intv (beeps ! j) \<and>
          (if nxt (beeps ! j) \<le>s nxt (beeps ! i)
           then nxt (beeps' ! j) = intv (beeps ! j)
           else nxt (beeps' ! j) = nxt (beeps ! j) - nxt (beeps ! i) \<and>
                (0 \<le>s nxt (beeps ! i) \<longrightarrow>
                   sint (nxt (beeps' ! j)) = sint (nxt (beeps ! j)) - sint (nxt (beeps ! i))))"
  proof (intro allI impI)
    fix j assume j: "j < length beeps"
    show "freq (beeps' ! j) = freq (beeps ! j) \<and> att (beeps' ! j) = att (beeps ! j) \<and>
          len (beeps' ! j) = len (beeps ! j) \<and> intv (beeps' ! j) = intv (beeps ! j) \<and>
          (if nxt (beeps ! j) \<le>s nxt (beeps ! i)
           then nxt (beeps' ! j) = intv (beeps ! j)
           else nxt (beeps' ! j) = nxt (beeps ! j) - nxt (beeps ! i) \<and>
                (0 \<le>s nxt (beeps ! i) \<longrightarrow>
                   sint (nxt (beeps' ! j)) = sint (nxt (beeps ! j)) - sint (nxt (beeps ! i))))"
    proof (cases "nxt (beeps ! j) \<le>s nxt (beeps ! i)")
      case True
      with j i(3) show ?thesis by (simp add: nth_advance)
    next
      case False
      then have "nxt (beeps ! i) <s nxt (beeps ! j)"
        by (simp add: word_sless_alt word_sle_eq)
      then have "0 \<le>s nxt (beeps ! i) \<longrightarrow>
          sint (nxt (beeps ! j) - nxt (beeps ! i)) = sint (nxt (beeps ! j)) - sint (nxt (beeps ! i))"
        by (simp add: sint_sub_no_wrap)
      with False j i(3) show ?thesis by (simp add: nth_advance)
    qed
  qed
  from i(1) i(2) len body show ?thesis by blast
qed

lemma select_beep_first_minimum_example:
  "(\<exists>p\<in>set [\<lparr>freq = 100, att = - 3, len = 14, intv = 4000, nxt = 5\<rparr>,
               \<lparr>freq = 200, att = - 6, len = 14, intv = 3800, nxt = 3\<rparr>,
               \<lparr>freq = 300, att = - 9, len = 14, intv = 3500, nxt = 3\<rparr>]. nxt p \<noteq> INT_MAX) \<and>
   select_beep [\<lparr>freq = 100, att = - 3, len = 14, intv = 4000, nxt = 5\<rparr>,
                \<lparr>freq = 200, att = - 6, len = 14, intv = 3800, nxt = 3\<rparr>,
                \<lparr>freq = 300, att = - 9, len = 14, intv = 3500, nxt = 3\<rparr>] = (3, Some 1) \<and>
   sched_step ([\<lparr>freq = 100, att = - 3, len = 14, intv = 4000, nxt = 5\<rparr>,
                \<lparr>freq = 200, att = - 6, len = 14, intv = 3800, nxt = 3\<rparr>,
                \<lparr>freq = 300, att = - 9, len = 14, intv = 3500, nxt = 3\<rparr>], [start_silence]) =
     Inr ([\<lparr>freq = 100, att = - 3, len = 14, intv = 4000, nxt = 2\<rparr>,
           \<lparr>freq = 200, att = - 6, len = 14, intv = 3800, nxt = 3800\<rparr>,
           \<lparr>freq = 300, att = - 9, len = 14, intv = 3500, nxt = 3500\<rparr>],
          [start_silence, \<lparr>hz = 0, db = - 99, us = 3000\<rparr>, \<lparr>hz = 200, db = - 6, us = 14000\<rparr>])"
proof -
  let ?beeps = "[\<lparr>freq = 100, att = - 3, len = 14, intv = 4000, nxt = 5\<rparr>,
                \<lparr>freq = 200, att = - 6, len = 14, intv = 3800, nxt = 3\<rparr>,
                \<lparr>freq = 300, att = - 9, len = 14, intv = 3500, nxt = 3 :: c_int\<rparr>]"
  have h: "\<exists>p\<in>set ?beeps. nxt p \<noteq> INT_MAX" by (simp add: INT_MAX_def)
  from select_beep_first_minimum [OF h, of "[start_silence]"] obtain i where i: "i < length ?beeps"
    "\<forall>j<i. nxt (?beeps ! i) <s nxt (?beeps ! j)"
    "\<forall>j<length ?beeps. nxt (?beeps ! i) \<le>s nxt (?beeps ! j)"
    "select_beep ?beeps = (nxt (?beeps ! i), Some i)"
    "sched_step (?beeps, [start_silence]) =
       Inr (advance (nxt (?beeps ! i)) ?beeps,
            [start_silence] @ [silence (nxt (?beeps ! i)), beep_tone (?beeps ! i)])"
    by blast
  have "i \<noteq> 0"
  proof
    assume "i = 0"
    with i(3) [rule_format, of 1] show False by simp
  qed
  moreover have "i \<noteq> 2"
  proof
    assume "i = 2"
    with i(2) [rule_format, of 1] show False by simp
  qed
  moreover from i(1) have "i = 0 \<or> i = 1 \<or> i = 2" by auto
  ultimately have "i = 1" by blast
  with i(4,5) h show ?thesis
    by (simp add: advance_def silence_def beep_tone_def)
qed

theorem advance_every_source_witness:
  "sched_step ([\<lparr>freq = 100, att = - 3, len = 14, intv = 4000, nxt = 5\<rparr>,
                \<lparr>freq = 200, att = - 6, len = 14, intv = 3800, nxt = 3\<rparr>,
                \<lparr>freq = 300, att = - 9, len = 14, intv = 3500, nxt = 3\<rparr>], [start_silence]) =
     Inr ([\<lparr>freq = 100, att = - 3, len = 14, intv = 4000, nxt = 2\<rparr>,
           \<lparr>freq = 200, att = - 6, len = 14, intv = 3800, nxt = 3800\<rparr>,
           \<lparr>freq = 300, att = - 9, len = 14, intv = 3500, nxt = 3500\<rparr>],
          [start_silence, \<lparr>hz = 0, db = - 99, us = 3000\<rparr>, \<lparr>hz = 200, db = - 6, us = 14000\<rparr>]) \<and>
   (\<exists>i<3. select_beep [\<lparr>freq = 100, att = - 3, len = 14, intv = 4000, nxt = 5\<rparr>,
                \<lparr>freq = 200, att = - 6, len = 14, intv = 3800, nxt = 3\<rparr>,
                \<lparr>freq = 300, att = - 9, len = 14, intv = 3500, nxt = 3\<rparr>] = (3, Some i))"
proof -
  let ?beeps = "[\<lparr>freq = 100, att = - 3, len = 14, intv = 4000, nxt = 5\<rparr>,
                \<lparr>freq = 200, att = - 6, len = 14, intv = 3800, nxt = 3\<rparr>,
                \<lparr>freq = 300, att = - 9, len = 14, intv = 3500, nxt = 3 :: c_int\<rparr>]"
  let ?beeps' = "[\<lparr>freq = 100, att = - 3, len = 14, intv = 4000, nxt = 2\<rparr>,
           \<lparr>freq = 200, att = - 6, len = 14, intv = 3800, nxt = 3800\<rparr>,
           \<lparr>freq = 300, att = - 9, len = 14, intv = 3500, nxt = 3500 :: c_int\<rparr>]"
  let ?tones' = "[start_silence, \<lparr>hz = 0, db = - 99, us = 3000\<rparr>, \<lparr>hz = 200, db = - 6, us = 14000 :: c_int\<rparr>]"
  have h: "sched_step (?beeps, [start_silence]) = Inr (?beeps', ?tones')"
    by (simp add: sched_step_def select_beep_def INT_MAX_def advance_def silence_def
        beep_tone_def)
  from advance_every_source [OF h] obtain i where "i < length ?beeps"
    "select_beep ?beeps = (nxt (?beeps ! i), Some i)" by blast
  moreover have "fst (select_beep ?beeps) = 3" by (simp add: select_beep_def INT_MAX_def)
  ultimately have "\<exists>i<3. select_beep ?beeps = (3, Some i)" by auto
  with h show ?thesis by blast
qed

text \<open>
  Claim C1. In every pass of the main loop the scheduler is said to select the
  source whose countdown is the least of all sources, the first one in the list
  when several share it. The search starts from \<open>gap = INT_MAX\<close> and takes a
  source only when \<open>p->next < gap\<close>. With the interval 2147483647 the first pass
  leaves the single source with the countdown \<open>INT_MAX\<close>; in the second pass
  that source holds the least countdown, but no countdown is below \<open>gap\<close> and no
  source is selected: \<open>beep\<close> is \<open>NULL\<close>. (Whenever some countdown is not
  \<open>INT_MAX\<close> the selected source is the first one of least countdown, lemma
  \<open>select_beep_first_minimum\<close>.)
\<close>

theorem no_beep_selected_at_int_max:
  "sched_step (init_next 2147483647 (const_rand 0) 0
       [\<lparr>freq = 100, att = - 3, len = 14, intv = 2147483647, nxt = 0\<rparr>], [start_silence]) =
     Inr ([\<lparr>freq = 100, att = - 3, len = 14, intv = 2147483647, nxt = 2147483647\<rparr>],
          [start_silence, \<lparr>hz = 0, db = - 99, us = 1000\<rparr>,
           \<lparr>hz = 100, db = - 3, us = 14000\<rparr>]) \<and>
   select_beep [\<lparr>freq = 100, att = - 3, len = 14, intv = 2147483647, nxt = 2147483647\<rparr>] =
     (2147483647, None)"
  by (simp add: sched_step_def select_beep_def INT_MAX_def advance_def silence_def
      beep_tone_def rand_next_def c_div_def const_rand_def word_sless_alt word_sle_eq)

subsection \<open>The first countdown\<close>

lemma c_div_nonneg: "0 \<le> a \<Longrightarrow> 0 < b \<Longrightarrow> c_div a b = a div b"
  by (cases "a = 0") (simp_all add: c_div_def)

lemma rand_next_range:
  assumes r: "0 \<le> r" "r < rand_max" and iv: "1 \<le> sint iv"
  shows "1 \<le> sint (rand_next rand_max iv r) \<and> sint (rand_next rand_max iv r) \<le> sint iv"
proof -
  let ?q = "(sint iv * r) div rand_max"
  have lt: "sint iv < 2 ^ (LENGTH(32) - 1)" by (rule sint_lt)
  from r iv have "0 \<le> sint iv * r" by simp
  with r have q: "c_div (sint iv * r) rand_max = ?q" by (simp add: c_div_nonneg)
  from r iv have q0: "0 \<le> ?q" by (simp add: pos_imp_zdiv_nonneg_iff)
  from r iv have "sint iv * r < sint iv * rand_max" by simp
  then have "sint iv * r < rand_max * sint iv" by (simp add: mult.commute)
  moreover from r have "rand_max * ?q \<le> sint iv * r"
    using mult_div_mod_eq [of rand_max "sint iv * r"] pos_mod_sign [of rand_max "sint iv * r"]
    by linarith
  ultimately have "rand_max * ?q < rand_max * sint iv" by linarith
  with r have q1: "?q < sint iv" by (simp add: mult_less_cancel_left_pos)
  from q0 q1 lt have "- (2 ^ 31) \<le> ?q + 1" "?q + 1 < 2 ^ 31" by simp_all
  then have "signed_take_bit 31 (?q + 1) = ?q + 1"
    by (simp add: signed_take_bit_int_eq_self)
  moreover have "sint (word_of_int (?q + 1) :: c_int) = signed_take_bit (LENGTH(32) - 1) (?q + 1)"
    by (rule sint_sbintrunc')
  ultimately have "sint (word_of_int (?q + 1) :: c_int) = ?q + 1"
    by (simp del: of_int_add)
  moreover have "rand_next rand_max iv r = word_of_int (?q + 1)"
    by (simp add: rand_next_def q)
  ultimately show ?thesis using q0 q1 by simp
qed

lemma rand_next_top: "0 < rand_max \<Longrightarrow> rand_next rand_max iv rand_max = iv + 1"
proof -
  assume "0 < rand_max"
  then have "c_div (sint iv * rand_max) rand_max = sint iv"
    by (simp add: c_div_def abs_mult sgn_mult mult_sgn_abs)
  then show ?thesis by (simp add: rand_next_def)
qed

text \<open>
  Claim C3. The first countdown of a source with interval \<open>I \<ge> 1\<close> is said to
  lie in \<open>{1, \<dots>, I}\<close> for every seed. When \<open>rand()\<close> returns \<open>RAND_MAX\<close>, which
  the C library allows, the quotient is \<open>I\<close> and the countdown is \<open>I + 1\<close>: here
  11 for the interval 10. (For a result below \<open>RAND_MAX\<close> the countdown is in
  \<open>{1, \<dots>, I}\<close>, lemma \<open>rand_next_range\<close>.)
\<close>

theorem first_countdown_above_interval:
  "map (\<lambda>p. sint (nxt p))
     (init_next 2147483647 (const_rand 2147483647) 0
        [\<lparr>freq = 100, att = - 3, len = 14, intv = 10, nxt = 0\<rparr>]) = [11]"
  by (simp add: rand_next_def c_div_def const_rand_def)

text \<open>
  Claim C9. The loop is said to end with exactly 29 tones for every configuration
  and every interval. Every run that ends has 29 tones (lemma
  \<open>gen_beeps_shape\<close>), but with the interval \<open>INT_MAX\<close> the single source has the
  countdown \<open>INT_MAX\<close> after its first beep, no countdown is below the starting
  value of \<open>gap\<close>, the pointer \<open>beep\<close> stays \<open>NULL\<close> and the program reads
  \<open>beep->freq\<close> through it.
\<close>

theorem null_beep_at_int_max:
  "gen_beeps 2147483647 (const_rand 0)
     [\<lparr>freq = 100, att = - 3, len = 14, intv = 2147483647, nxt = 0\<rparr>] = Inl Null_deref"
  by (simp add: sched_eval)

lemma null_beep_any_seed:
  "gen_beeps rand_max rnd [\<lparr>freq = f, att = a, len = l, intv = INT_MAX, nxt = n\<rparr>]
     = Inl Null_deref"
proof -
  let ?n0 = "rand_next rand_max INT_MAX (rnd 0)"
  let ?b0 = "\<lparr>freq = f, att = a, len = l, intv = INT_MAX, nxt = ?n0\<rparr>"
  let ?b1 = "\<lparr>freq = f, att = a, len = l, intv = INT_MAX, nxt = INT_MAX\<rparr>"
  have fault: "\<And>ts. length ts < 28 \<Longrightarrow> sched_loop ([?b1], ts) = Inl Null_deref"
    by (simp add: sched_loop.simps [of "[?b1]"] sched_step_fault)
  have "sched_loop ([?b0], [start_silence]) = Inl Null_deref"
  proof (cases "?n0 = INT_MAX")
    case True
    with fault [of "[start_silence]"] show ?thesis by simp
  next
    case False
    then have "sched_step ([?b0], [start_silence]) =
        Inr ([?b1], [start_silence, silence ?n0, beep_tone ?b0])"
      by (simp add: sched_step_def select_beep_def sless_INT_MAX advance_def word_sle_eq)
    with fault [of "[start_silence, silence ?n0, beep_tone ?b0]"] show ?thesis
      by (simp add: sched_loop.simps [of "[?b0]"])
  qed
  then show ?thesis by (simp add: gen_beeps_def)
qed






subsection \<open>The produced sequence\<close>





lemma single_step:
  assumes "nxt b \<noteq> INT_MAX"
  shows "sched_step ([b], ts) = Inr ([b\<lparr>nxt := intv b\<rparr>], ts @ [silence (nxt b), beep_tone b])"
  using assms
  by (simp add: sched_step_def select_beep_def sless_INT_MAX advance_def word_sle_eq)

lemma single_loop:
  assumes "intv b \<noteq> INT_MAX" "nxt b = intv b"
  shows "length ts + 2 * k = 29 \<Longrightarrow>
     sched_loop ([b], ts) = Inr ([b], ts @ concat (replicate k [silence (intv b), beep_tone b]))"
proof (induction k arbitrary: ts)
  case 0
  then show ?case by (simp add: sched_loop.simps [of "[b]" ts])
next
  case (Suc k)
  from assms have b: "b\<lparr>nxt := intv b\<rparr> = b" by simp
  from assms have step: "sched_step ([b], ts) =
      Inr ([b], ts @ [silence (intv b), beep_tone b])"
    using single_step [of b ts] by (simp add: b)
  from Suc.prems have "length (ts @ [silence (intv b), beep_tone b]) + 2 * k = 29" by simp
  from Suc.IH [OF this] Suc.prems step show ?case
    by (simp add: sched_loop.simps [of "[b]" ts])
qed

text \<open>
  Claim C5, as the code has it. For one source with frequency \<open>F\<close>, attenuation
  \<open>A\<close>, length \<open>L\<close> and interval \<open>I\<close> the sequence is the start silence of 500000
  microseconds, a silence of the first countdown and the beep, and then 13 times a
  silence of \<open>I * 1000\<close> microseconds and the beep of frequency \<open>F\<close>, level \<open>A\<close>
  and \<open>L * 1000\<close> microseconds. After the first cycle it is the silence alone
  that lasts \<open>I * 1000\<close> microseconds: a pair lasts \<open>I * 1000 + L * 1000\<close>.
  The products are those of 32-bit integers.
\<close>

theorem single_source_timeline:
  assumes "I \<noteq> INT_MAX" and "rand_next rand_max I (rnd 0) \<noteq> INT_MAX"
  shows "gen_beeps rand_max rnd [\<lparr>freq = F, att = A, len = L, intv = I, nxt = n\<rparr>] =
     Inr (\<lparr>hz = 0, db = - 99, us = 500000\<rparr> #
          \<lparr>hz = 0, db = - 99, us = rand_next rand_max I (rnd 0) * 1000\<rparr> #
          \<lparr>hz = F, db = A, us = L * 1000\<rparr> #
          concat (replicate 13
            [\<lparr>hz = 0, db = - 99, us = I * 1000\<rparr>, \<lparr>hz = F, db = A, us = L * 1000\<rparr>]))"
proof -
  let ?n0 = "rand_next rand_max I (rnd 0)"
  let ?b0 = "\<lparr>freq = F, att = A, len = L, intv = I, nxt = ?n0\<rparr>"
  let ?b1 = "\<lparr>freq = F, att = A, len = L, intv = I, nxt = I\<rparr>"
  let ?t1 = "[start_silence, silence ?n0, beep_tone ?b0]"
  from assms(2) have "sched_step ([?b0], [start_silence]) = Inr ([?b1], ?t1)"
    using single_step [of ?b0 "[start_silence]"] by simp
  moreover from assms(1) have "sched_loop ([?b1], ?t1) =
      Inr ([?b1], ?t1 @ concat (replicate 13 [silence (intv ?b1), beep_tone ?b1]))"
    by (intro single_loop) simp_all
  ultimately have "sched_loop ([?b0], [start_silence]) =
      Inr ([?b1], ?t1 @ concat (replicate 13 [silence (intv ?b1), beep_tone ?b1]))"
    by (simp add: sched_loop.simps [of "[?b0]" "[start_silence]"])
  then show ?thesis
    by (simp add: gen_beeps_def silence_def beep_tone_def start_silence_def)
qed

text \<open>
  Claim C5 as stated fails: with a length of 14 ms and an interval of 4000 ms the
  pairs after the first last 4000000 + 14000 microseconds, not 4000000.
\<close>

theorem pair_duration_counterexample:
  "gen_beeps 2147483647 (const_rand 0)
     [\<lparr>freq = 100, att = - 3, len = 14, intv = 4000, nxt = 0\<rparr>] =
     Inr (\<lparr>hz = 0, db = - 99, us = 500000\<rparr> #
          \<lparr>hz = 0, db = - 99, us = 1000\<rparr> #
          \<lparr>hz = 100, db = - 3, us = 14000\<rparr> #
          concat (replicate 13
            [\<lparr>hz = 0, db = - 99, us = 4000000\<rparr>, \<lparr>hz = 100, db = - 3, us = 14000\<rparr>])) \<and>
   (4000000 + 14000 :: c_int) \<noteq> 4000 * 1000"
proof -
  have rep: "\<And>xs :: tone_t list. concat (replicate 13 xs) =
      xs @ xs @ xs @ xs @ xs @ xs @ xs @ xs @ xs @ xs @ xs @ xs @ xs"
    by (simp add: eval_nat_numeral)
  show ?thesis by (simp add: sched_eval rep word_sless_alt word_sle_eq)
qed

theorem single_source_timeline_witness:
  "(4000 :: c_int) \<noteq> INT_MAX \<and> rand_next 2147483647 4000 (const_rand 7 0) \<noteq> INT_MAX \<and>
   gen_beeps 2147483647 (const_rand 7)
     [\<lparr>freq = 100, att = - 3, len = 14, intv = 4000, nxt = 0\<rparr>] =
     Inr (\<lparr>hz = 0, db = - 99, us = 500000\<rparr> #
          \<lparr>hz = 0, db = - 99, us = 1000\<rparr> #
          \<lparr>hz = 100, db = - 3, us = 14000\<rparr> #
          concat (replicate 13
            [\<lparr>hz = 0, db = - 99, us = 4000000\<rparr>, \<lparr>hz = 100, db = - 3, us = 14000\<rparr>]))"
proof -
  have h1: "(4000 :: c_int) \<noteq> INT_MAX" by (simp add: INT_MAX_def)
  have n0: "rand_next 2147483647 4000 (const_rand 7 0) = 1"
    by (simp add: rand_next_def c_div_def const_rand_def)
  have h2: "rand_next 2147483647 4000 (const_rand 7 0) \<noteq> INT_MAX"
    by (simp add: n0 INT_MAX_def)
  from single_source_timeline [where I = 4000 and rand_max = 2147483647
      and rnd = "const_rand 7" and F = 100 and A = "- 3" and L = 14 and n = 0] h1 h2
  show ?thesis by (simp add: n0)
qed


section \<open>The stream mixer: proofs\<close>

subsection \<open>Conversions\<close>

lemma cu8_to_cs8_eq: "cu8_to_cs8 x = x - 128"
  by (simp add: cu8_to_cs8_def)

lemma cs8_to_cu8_eq: "cs8_to_cu8 a = a + 128"
  by (simp add: cs8_to_cu8_def)

lemma add_cs8_eq: "add_cs8 a v = a + v"
  by (simp add: add_cs8_def)

lemma c_trunc_of_int: "c_trunc (real_of_int v) = v"
  by (simp add: c_trunc_def)

lemma round_even_of_int: "round_even (real_of_int n) = n"
  by (simp add: round_even_def)

lemma to_double_of_int:
  assumes "v \<noteq> 0" and "\<bar>v\<bar> \<le> 128"
  shows "to_double (real_of_int v) = real_of_int v"
proof -
  let ?k = "\<lfloor>Transcendental.log 2 \<bar>real_of_int v\<bar>\<rfloor>"
  have "(2::real) powr 7 = 2 ^ 7" using powr_realpow [of "2::real" 7] by simp
  with assms have "\<bar>real_of_int v\<bar> \<le> 2 powr 7" by simp
  moreover from assms have pos: "0 < \<bar>real_of_int v\<bar>" by simp
  ultimately have "Transcendental.log 2 \<bar>real_of_int v\<bar> \<le> 7"
    by (subst log_le_iff) simp_all
  then have "?k \<le> 7" by (simp add: floor_le_iff)
  define m where "m = nat (52 - ?k)"
  with \<open>?k \<le> 7\<close> have m: "?k - 52 = - int m" by simp
  have u: "2 powr real_of_int (?k - 52) = 1 / 2 ^ m"
    by (simp add: m powr_minus powr_realpow divide_simps)
  have "real_of_int v / (1 / 2 ^ m) = real_of_int (v * 2 ^ m)" by simp
  then have re: "round_even (real_of_int v / (1 / 2 ^ m)) = v * 2 ^ m"
    by (simp only: round_even_of_int)
  from assms(1) have "to_double (real_of_int v) =
      real_of_int (round_even (real_of_int v / 2 powr real_of_int (?k - 52))) *
        2 powr real_of_int (?k - 52)"
    by (simp add: to_double_def Let_def del: of_int_diff)
  also have "\<dots> = real_of_int (round_even (real_of_int v / (1 / 2 ^ m))) * (1 / 2 ^ m)"
    by (simp only: u)
  also have "\<dots> = real_of_int (v * 2 ^ m) * (1 / 2 ^ m)"
    by (simp only: re)
  also have "\<dots> = real_of_int v" by simp
  finally show ?thesis .
qed

lemma attenuate_unity: "attenuate 1 x = cu8_to_cs8 x"
proof -
  let ?v = "uint x - 128"
  have "uint x < 2 ^ LENGTH(8)" by (rule uint_lt2p)
  moreover have "0 \<le> uint x" by simp
  ultimately have range: "- 128 \<le> ?v" "?v \<le> 127" by simp_all
  have "to_double (real_of_int ?v) = real_of_int ?v"
  proof (cases "?v = 0")
    case True
    then show ?thesis by (simp add: to_double_def)
  next
    case False
    moreover from range have "\<bar>?v\<bar> \<le> 128" by linarith
    ultimately show ?thesis by (rule to_double_of_int)
  qed
  then have "attenuate 1 x = double_to_int8 (real_of_int ?v)"
    by (simp add: attenuate_def del: of_int_diff)
  also from range have "\<dots> = word_of_int ?v"
    by (simp add: double_to_int8_def c_trunc_of_int del: of_int_diff)
  finally show ?thesis by (simp add: cu8_to_cs8_def)
qed

lemma offset_round_trip: "cs8_to_cu8 (cu8_to_cs8 x) = x"
  by (simp add: cu8_to_cs8_eq cs8_to_cu8_eq)

lemma sint_cu8_to_cs8: "sint (cu8_to_cs8 x) = uint x - 128"
proof -
  have "uint x < 2 ^ LENGTH(8)" by (rule uint_lt2p)
  moreover have "0 \<le> uint x" by simp
  ultimately have "- (2 ^ 7) \<le> uint x - 128" "uint x - 128 < 2 ^ 7" by simp_all
  then have "signed_take_bit 7 (uint x - 128) = uint x - 128"
    by (simp add: signed_take_bit_int_eq_self)
  moreover have "sint (word_of_int (uint x - 128) :: u8) = signed_take_bit (LENGTH(8) - 1) (uint x - 128)"
    by (rule sint_sbintrunc')
  ultimately show ?thesis by (simp add: cu8_to_cs8_def del: of_int_diff)
qed

lemma write_fd_complete:
  "write_complete out (length buf) \<Longrightarrow>
     write_fd out buf =
       (int (length buf), out\<lparr>pending := tl (pending out), written := written out @ buf\<rparr>)"
  by (auto simp: write_complete_def split: list.splits wr.splits)

lemma floor_log2_eq:
  assumes "2 ^ n \<le> x" and "x < 2 ^ Suc n"
  shows "\<lfloor>Transcendental.log 2 x\<rfloor> = int n"
proof -
  from assms(1) have pos: "0 < x" by (rule less_le_trans [OF zero_less_power, rotated]) simp
  have "(2::real) powr real n = 2 ^ n" "(2::real) powr real (Suc n) = 2 ^ Suc n"
    by (simp_all only: powr_realpow [of "2::real"] zero_less_numeral)
  with assms pos have "real n \<le> Transcendental.log 2 x" "Transcendental.log 2 x < real (Suc n)"
    by (simp_all only: le_log_iff log_less_iff one_less_numeral_iff semiring_norm(76))
  then show ?thesis by (simp add: floor_eq_iff)
qed

text \<open>
  The rounding is that of the machine: the byte 138 at the gain 0.7 (the double
  next to it) gives the product 7.0 in double precision and so 7, where the
  product of the reals is below 7.
\<close>

lemma attenuate_seven_tenths:
  "attenuate (3152519739159347 / 4503599627370496) 138 = 7"
proof -
  let ?x = "15762598695796735 / 2251799813685248 :: real"
  have x: "real_of_int (uint (138 :: u8) - 128) * (3152519739159347 / 4503599627370496) = ?x"
    by simp
  have "\<lfloor>Transcendental.log 2 ?x\<rfloor> = int 2"
    by (rule floor_log2_eq) simp_all
  then have k: "\<lfloor>Transcendental.log 2 \<bar>?x\<bar>\<rfloor> - 52 = - int 50" by simp
  have u: "2 powr real_of_int (- int 50) = 1 / 2 ^ 50"
    by (simp add: powr_minus powr_realpow divide_simps)
  have q: "?x / (1 / 2 ^ 50) = 15762598695796735 / 2" by simp
  have f: "\<lfloor>15762598695796735 / 2 :: real\<rfloor> = 7881299347898367" by (simp add: floor_eq_iff)
  have r: "round_even (15762598695796735 / 2) = 7881299347898368"
    by (simp add: round_even_def f)
  have "to_double ?x = real_of_int (round_even (?x / 2 powr real_of_int (- int 50))) *
      2 powr real_of_int (- int 50)"
    by (simp only: to_double_def Let_def k) simp
  also have "\<dots> = real_of_int (round_even (?x / (1 / 2 ^ 50))) * (1 / 2 ^ 50)"
    by (simp only: u)
  also have "\<dots> = 7" by (simp only: q r) simp
  finally have "to_double ?x = 7" .
  then show ?thesis
    by (simp only: attenuate_def x) (simp add: double_to_int8_def c_trunc_def)
qed

lemma read_fd_length: "read_fd n rs = (Rd_ok d, rs') \<Longrightarrow> length d \<le> n"
  by (induction n rs rule: read_fd.induct) auto

subsection \<open>One block\<close>




lemma mix_block_Nil: "mix_block g [] blk = blk"
  by (simp add: mix_block_def)

lemma mix_inputs_all_empty:
  "\<forall>c\<in>set cs. fst (read_fd n (fd c)) = Rd_ok [] \<Longrightarrow>
     mix_inputs n cs (blk, ws, lg) =
       (map (\<lambda>c. c\<lparr>fd := snd (read_fd n (fd c))\<rparr>) cs, blk, ws, lg)"
proof (induction cs)
  case Nil
  then show ?case by simp
next
  case (Cons c cs)
  obtain r fd' where r: "read_fd n (fd c) = (r, fd')" by force
  with Cons.prems have "r = Rd_ok []" by simp
  with r Cons show ?case by (simp add: mix_block_Nil)
qed

text \<open>
  Claim C10, as the code has it. With a block size of at least one byte, a pass in
  which every read returns 0 bytes makes a write of 0 bytes, prints \<open>Done\<close> and
  leaves the loop, given that the write is accepted; nothing is added to the
  output.
\<close>

theorem all_inputs_empty_done:
  assumes "0 < frame_size st"
    and "\<forall>c\<in>set (input0 st # inputs_rest st). fst (read_fd (frame_size st) (fd c)) = Rd_ok []"
    and "write_complete (w_fd st) 0"
  shows "\<exists>st'. mix_iter st = (False, st') \<and> mix_loop (Suc n) st = Some st' \<and>
           w_fd st' = snd (write_fd (w_fd st) []) \<and>
           written (w_fd st') = written (w_fd st) \<and>
           log st' = log st @ [Done]"
proof -
  let ?n = "frame_size st"
  obtain r fd' where r: "read_fd ?n (fd (input0 st)) = (r, fd')" by force
  with assms(2) have r0: "read_fd ?n (fd (input0 st)) = (Rd_ok [], fd')" by simp
  from assms(2) have rest: "\<forall>c\<in>set (inputs_rest st). fst (read_fd ?n (fd c)) = Rd_ok []"
    by simp
  have wr: "write_fd (w_fd st) [] =
      (0, (w_fd st)\<lparr>pending := tl (pending (w_fd st)), written := written (w_fd st) @ []\<rparr>)"
    using write_fd_complete [of "w_fd st" "[]"] assms(3) by simp
  let ?st' = "st\<lparr>input0 := (input0 st)\<lparr>fd := fd'\<rparr>,
                 inputs_rest := map (\<lambda>c. c\<lparr>fd := snd (read_fd ?n (fd c))\<rparr>) (inputs_rest st),
                 w_fd := (w_fd st)\<lparr>pending := tl (pending (w_fd st)),
                                  written := written (w_fd st) @ []\<rparr>,
                 log := log st @ [Done]\<rparr>"
  from assms(1) r0 wr have it: "mix_iter st = (False, ?st')"
    by (simp add: mix_iter_def Let_def mix_inputs_all_empty [OF rest] del: write_fd.simps)
  then have "mix_loop (Suc n) st = Some ?st'" by simp
  with it wr show ?thesis by (intro exI [of _ ?st']) simp
qed

text \<open>
  Claim C10 as stated fails for the block size 0: every read returns 0 bytes and
  0 bytes are written, but \<open>write_size\<close> equals \<open>frame_size\<close>, so nothing is
  printed and the loop goes on, in the same state (and so for ever, lemma
  \<open>mix_loop_stuck\<close>).
\<close>

theorem zero_block_counterexample:
  "mix_iter \<lparr>frame_size = 0,
             input0 = \<lparr>fd = [], path = ''a.cu8'', gain = 1\<rparr>,
             inputs_rest = [],
             w_fd = \<lparr>pending = [], written = []\<rparr>,
             log = []\<rparr> =
     (True, \<lparr>frame_size = 0,
             input0 = \<lparr>fd = [], path = ''a.cu8'', gain = 1\<rparr>,
             inputs_rest = [],
             w_fd = \<lparr>pending = [], written = []\<rparr>,
             log = []\<rparr>)"
  by (simp add: mix_iter_def)

lemma mix_loop_stuck: "mix_iter st = (True, st) \<Longrightarrow> mix_loop n st = None"
  by (induction n) simp_all

text \<open>
  Claim C6. A failed read on a secondary input is said to end the whole loop. The
  \<open>break\<close> leaves only the loop over the secondary inputs: the block is converted
  and written, and since it is a full block the outer loop goes on, reads both
  inputs again, mixes and writes. Below, four bytes are written in the pass of the
  failure and two more in the next pass.
\<close>

theorem read_failure_continues:
  "mix_loop 2 \<lparr>frame_size = 4,
      input0 = \<lparr>fd = [Rd_ok [1, 2, 3, 4], Rd_ok [5, 6]], path = ''a.cu8'', gain = 1\<rparr>,
      inputs_rest = [\<lparr>fd = [Rd_err, Rd_ok [128, 130]], path = ''b.cu8'', gain = 1\<rparr>],
      w_fd = \<lparr>pending = [], written = []\<rparr>, log = []\<rparr> =
   Some \<lparr>frame_size = 4,
      input0 = \<lparr>fd = [], path = ''a.cu8'', gain = 1\<rparr>,
      inputs_rest = [\<lparr>fd = [], path = ''b.cu8'', gain = 1\<rparr>],
      w_fd = \<lparr>pending = [], written = [1, 2, 3, 4, 5, 8]\<rparr>,
      log = [Failed_read ''b.cu8'', Done]\<rparr>"
proof -
  have two: "2 = Suc (Suc 0)" by simp
  show ?thesis
    unfolding two
    by (simp add: mix_iter_def mix_block_def cu8_to_cs8_eq cs8_to_cu8_eq add_cs8_eq
        attenuate_unity)
qed

subsection \<open>One input with gain 1\<close>

lemma unity_block:
  assumes "inputs_rest st = []" and "gain (input0 st) = 1"
    and "read_fd (frame_size st) (fd (input0 st)) = (Rd_ok d, fd')"
    and "write_complete (w_fd st) (length d)"
  shows "mix_iter st =
           (length d = frame_size st,
            st\<lparr>input0 := (input0 st)\<lparr>fd := fd'\<rparr>,
               inputs_rest := [],
               w_fd := (w_fd st)\<lparr>pending := tl (pending (w_fd st)),
                                written := written (w_fd st) @ d\<rparr>,
               log := (if length d = frame_size st then log st else log st @ [Done])\<rparr>)"
proof -
  have rt: "map cs8_to_cu8 (map cu8_to_cs8 d) = d"
    by (simp add: offset_round_trip map_idI)
  from read_fd_length [OF assms(3)] have len: "length d \<le> frame_size st" .
  have "write_fd (w_fd st) d =
      (int (length d), (w_fd st)\<lparr>pending := tl (pending (w_fd st)),
                                written := written (w_fd st) @ d\<rparr>)"
    by (rule write_fd_complete [OF assms(4)])
  with assms(1-3) rt show ?thesis
    by (simp add: mix_iter_def Let_def del: write_fd.simps)
qed

lemma unity_run:
  assumes "\<forall>d\<in>set ds. length d = n" and "length e < n"
  shows "frame_size st = n \<Longrightarrow> inputs_rest st = [] \<Longrightarrow> gain (input0 st) = 1 \<Longrightarrow>
     pending (w_fd st) = [] \<Longrightarrow> fd (input0 st) = map Rd_ok ds @ Rd_ok e # rs \<Longrightarrow>
     mix_loop (Suc (length ds)) st =
       Some (st\<lparr>input0 := (input0 st)\<lparr>fd := rs\<rparr>,
                w_fd := (w_fd st)\<lparr>written := written (w_fd st) @ concat ds @ e\<rparr>,
                log := log st @ [Done]\<rparr>)"
  using assms(1)
proof (induction ds arbitrary: st)
  case Nil
  from assms(2) Nil have rd: "read_fd (frame_size st) (fd (input0 st)) = (Rd_ok e, rs)"
    by simp
  from Nil have wc: "write_complete (w_fd st) (length e)" by (simp add: write_complete_def)
  from unity_block [OF Nil(2) Nil(3) rd wc] assms(2) Nil(1,2,4) show ?case by simp
next
  case (Cons d ds)
  let ?st1 = "st\<lparr>input0 := (input0 st)\<lparr>fd := map Rd_ok ds @ Rd_ok e # rs\<rparr>,
                 inputs_rest := [],
                 w_fd := (w_fd st)\<lparr>pending := tl (pending (w_fd st)),
                                  written := written (w_fd st) @ d\<rparr>,
                 log := log st\<rparr>"
  from Cons.prems have d: "length d = n" by simp
  with Cons.prems have rd: "read_fd (frame_size st) (fd (input0 st)) =
      (Rd_ok d, map Rd_ok ds @ Rd_ok e # rs)" by simp
  from Cons.prems have wc: "write_complete (w_fd st) (length d)"
    by (simp add: write_complete_def)
  from unity_block [OF Cons.prems(2) Cons.prems(3) rd wc] d Cons.prems(1)
  have it: "mix_iter st = (True, ?st1)" by simp
  from Cons.prems have "mix_loop (Suc (length ds)) ?st1 =
      Some (?st1\<lparr>input0 := (input0 ?st1)\<lparr>fd := rs\<rparr>,
                  w_fd := (w_fd ?st1)\<lparr>written := written (w_fd ?st1) @ concat ds @ e\<rparr>,
                  log := log ?st1 @ [Done]\<rparr>)"
    by (intro Cons.IH) simp_all
  with it Cons.prems(2,4) show ?case by simp
qed

text \<open>
  Claim C7, as the code has it. With one input of gain 1 and an output that
  accepts every write, the loop copies what it reads byte for byte: every full
  block, then the first block shorter than the block size (of any length, also 0),
  after which it prints \<open>Done\<close> and stops, leaving the rest unread. The block size
  is then at least 1. For a regular file that is the whole input, whatever its
  length. Converting a byte to signed and back gives the byte, for all 256 values.
\<close>

theorem single_input_unity_copy:
  assumes "inputs_rest st = []" and "gain (input0 st) = 1" and "pending (w_fd st) = []"
    and "fd (input0 st) = map Rd_ok ds @ Rd_ok e # rs"
    and "\<forall>d\<in>set ds. length d = frame_size st" and "length e < frame_size st"
  shows "mix_loop (Suc (length ds)) st =
           Some (st\<lparr>input0 := (input0 st)\<lparr>fd := rs\<rparr>,
                    w_fd := (w_fd st)\<lparr>written := written (w_fd st) @ concat ds @ e\<rparr>,
                    log := log st @ [Done]\<rparr>) \<and>
         (\<forall>x. cs8_to_cu8 (cu8_to_cs8 x) = x) \<and>
         (\<forall>d. map cs8_to_cu8 (map cu8_to_cs8 d) = d)"
proof -
  have "\<forall>d. map cs8_to_cu8 (map cu8_to_cs8 d) = d"
    by (simp add: offset_round_trip map_idI)
  with unity_run [OF assms(5,6) refl assms(1-4)] show ?thesis
    by (simp add: offset_round_trip)
qed

theorem single_input_unity_copy_witness:
  "mix_loop 2 \<lparr>frame_size = 2,
      input0 = \<lparr>fd = [Rd_ok [0, 127], Rd_ok [255]], path = ''a.cu8'', gain = 1\<rparr>,
      inputs_rest = [],
      w_fd = \<lparr>pending = [], written = []\<rparr>, log = []\<rparr> =
   Some \<lparr>frame_size = 2,
      input0 = \<lparr>fd = [], path = ''a.cu8'', gain = 1\<rparr>,
      inputs_rest = [],
      w_fd = \<lparr>pending = [], written = [0, 127, 255]\<rparr>, log = [Done]\<rparr>"
proof -
  let ?st = "\<lparr>frame_size = 2,
      input0 = \<lparr>fd = [Rd_ok [0, 127], Rd_ok [255]], path = ''a.cu8'', gain = 1\<rparr>,
      inputs_rest = [],
      w_fd = \<lparr>pending = [], written = []\<rparr>, log = []\<rparr>"
  have h1: "inputs_rest ?st = []" by simp
  have h2: "gain (input0 ?st) = 1" by simp
  have h3: "pending (w_fd ?st) = []" by simp
  have h4: "fd (input0 ?st) = map Rd_ok [[0, 127]] @ Rd_ok [255] # []" by simp
  have h5: "\<forall>d\<in>set [[0, 127 :: u8]]. length d = frame_size ?st" by simp
  have h6: "length [255 :: u8] < frame_size ?st" by simp
  from single_input_unity_copy [OF h1 h2 h3 h4 h5 h6] show ?thesis
    by (simp add: numeral_2_eq_2)
qed


theorem all_inputs_empty_done_witness:
  "mix_loop 1 \<lparr>frame_size = 4,
      input0 = \<lparr>fd = [], path = ''a.cu8'', gain = 1\<rparr>,
      inputs_rest = [\<lparr>fd = [], path = ''b.cu8'', gain = 1 / 2\<rparr>],
      w_fd = \<lparr>pending = [], written = []\<rparr>, log = []\<rparr> =
   Some \<lparr>frame_size = 4,
      input0 = \<lparr>fd = [], path = ''a.cu8'', gain = 1\<rparr>,
      inputs_rest = [\<lparr>fd = [], path = ''b.cu8'', gain = 1 / 2\<rparr>],
      w_fd = \<lparr>pending = [], written = []\<rparr>, log = [Done]\<rparr>"
proof -
  let ?st = "\<lparr>frame_size = 4,
      input0 = \<lparr>fd = [], path = ''a.cu8'', gain = 1\<rparr>,
      inputs_rest = [\<lparr>fd = [], path = ''b.cu8'', gain = 1 / 2\<rparr>],
      w_fd = \<lparr>pending = [], written = []\<rparr>, log = []\<rparr>"
  have h1: "0 < frame_size ?st" by simp
  have h2: "\<forall>c\<in>set (input0 ?st # inputs_rest ?st).
      fst (read_fd (frame_size ?st) (fd c)) = Rd_ok []" by simp
  have h3: "write_complete (w_fd ?st) 0" by (simp add: write_complete_def)
  from all_inputs_empty_done [OF h1 h2 h3, of 0] obtain st'
    where st': "mix_iter ?st = (False, st')" "mix_loop (Suc 0) ?st = Some st'"
      "written (w_fd st') = written (w_fd ?st)" "log st' = log ?st @ [Done]" by blast
  have "mix_iter ?st = (False, ?st\<lparr>log := [Done]\<rparr>)"
    by (simp add: mix_iter_def mix_block_def)
  with st'(1) have "st' = ?st\<lparr>log := [Done]\<rparr>" by simp
  with st'(2) show ?thesis by simp
qed

text \<open>
  Claim C7 as stated fails. With the block size 0 nothing of the input 1 2 3 is
  ever written and the loop goes on in the same state (for ever, lemma
  \<open>mix_loop_stuck\<close>); with the block size 4 a read of the two bytes 1 2 that is
  not the end of the stream ends the run, and 3 4 are never read; and an output
  that takes only one of two bytes ends the run with the output 1.
\<close>

theorem unity_copy_counterexample:
  "mix_iter \<lparr>frame_size = 0,
      input0 = \<lparr>fd = [Rd_ok [1, 2, 3]], path = ''a.cu8'', gain = 1\<rparr>,
      inputs_rest = [],
      w_fd = \<lparr>pending = [], written = []\<rparr>, log = []\<rparr> =
     (True, \<lparr>frame_size = 0,
      input0 = \<lparr>fd = [], path = ''a.cu8'', gain = 1\<rparr>,
      inputs_rest = [],
      w_fd = \<lparr>pending = [], written = []\<rparr>, log = []\<rparr>) \<and>
   mix_iter \<lparr>frame_size = 0,
      input0 = \<lparr>fd = [], path = ''a.cu8'', gain = 1\<rparr>,
      inputs_rest = [],
      w_fd = \<lparr>pending = [], written = []\<rparr>, log = []\<rparr> =
     (True, \<lparr>frame_size = 0,
      input0 = \<lparr>fd = [], path = ''a.cu8'', gain = 1\<rparr>,
      inputs_rest = [],
      w_fd = \<lparr>pending = [], written = []\<rparr>, log = []\<rparr>) \<and>
   mix_loop 1 \<lparr>frame_size = 4,
      input0 = \<lparr>fd = [Rd_ok [1, 2], Rd_ok [3, 4]], path = ''a.cu8'', gain = 1\<rparr>,
      inputs_rest = [],
      w_fd = \<lparr>pending = [], written = []\<rparr>, log = []\<rparr> =
     Some \<lparr>frame_size = 4,
      input0 = \<lparr>fd = [Rd_ok [3, 4]], path = ''a.cu8'', gain = 1\<rparr>,
      inputs_rest = [],
      w_fd = \<lparr>pending = [], written = [1, 2]\<rparr>, log = [Done]\<rparr> \<and>
   mix_loop 1 \<lparr>frame_size = 4,
      input0 = \<lparr>fd = [Rd_ok [1, 2]], path = ''a.cu8'', gain = 1\<rparr>,
      inputs_rest = [],
      w_fd = \<lparr>pending = [Wr_ok 1], written = []\<rparr>, log = []\<rparr> =
     Some \<lparr>frame_size = 4,
      input0 = \<lparr>fd = [], path = ''a.cu8'', gain = 1\<rparr>,
      inputs_rest = [],
      w_fd = \<lparr>pending = [], written = [1]\<rparr>, log = [Failed_write]\<rparr>"
  by (simp add: mix_iter_def cu8_to_cs8_eq cs8_to_cu8_eq)

end
